theory Spec2Isabelle
  imports Main "HOL-Library.Sublist" "HOL-Library.AList"
begin

section \<open>JavaScript values and the engine's result set\<close>

text \<open>
  The relay copies JavaScript numbers (request ids, row counts, numeric cells) and never
  computes with them, so the type of numbers is a type variable \<open>'n\<close>. The one
  conversion the code performs, \<^verbatim>\<open>Number(bigint)\<close>, is a parameter of the
  functions that call it.

  A runtime value is what a cell of a row or a statement argument can hold. Both clients
  are created with the integer mode "number" (the default in connection.ts, explicit in
  studio.ts), so the engine hands integers over as numbers and no cell is a bigint.
\<close>

datatype 'n Value =
    Undefined
  | Null
  | Bool bool
  | Num 'n
  | Str string
  | Blob "nat list"

text \<open>
  A row of the engine is a JavaScript object: \<^verbatim>\<open>r[idx]\<close> and
  \<^verbatim>\<open>row[col]\<close> both read a property, the index being converted to its decimal
  string. A row is therefore a function from property keys to values, \<open>Undefined\<close>
  where the property is absent.
\<close>

type_synonym 'n Row = "string \<Rightarrow> 'n Value"

record 'n ResultSet =
  columns :: "string list"
  columnTypes :: "string list"
  rows :: "'n Row list"
  rowsAffected :: 'n
  lastInsertRowid :: "int option"

text \<open>Decimal rendering of a non-negative integer, as a template literal renders \<^verbatim>\<open>${i}\<close>.\<close>

fun string_of_nat :: "nat \<Rightarrow> string" where
  "string_of_nat n =
     (if n < 10 then [''0123456789'' ! n]
      else string_of_nat (n div 10) @ [''0123456789'' ! (n mod 10)])"

declare string_of_nat.simps [simp del]

text \<open>\<^verbatim>\<open>BigInt.prototype.toString()\<close>: decimal digits, a minus sign for a negative value.\<close>

definition bigint_toString :: "int \<Rightarrow> string" where
  "bigint_toString v =
     (if v < 0 then ''-'' @ string_of_nat (nat (- v)) else string_of_nat (nat v))"

text \<open>Reading a decimal string back; used only to state what "decimal string" means.\<close>

definition digit_value :: "char \<Rightarrow> nat" where
  "digit_value c = (case map_of (zip ''0123456789'' [0, 1, 2, 3, 4, 5, 6, 7, 8, 9]) c of
      Some d \<Rightarrow> d | None \<Rightarrow> 0)"

definition nat_of_decimal :: "string \<Rightarrow> nat" where
  "nat_of_decimal s = foldl (\<lambda>a c. 10 * a + digit_value c) 0 s"

definition int_of_decimal :: "string \<Rightarrow> int" where
  "int_of_decimal s =
     (case s of
        [] \<Rightarrow> 0
      | c # cs \<Rightarrow> if c = CHR ''-'' then - int (nat_of_decimal cs) else int (nat_of_decimal s))"

section \<open>Type mapper (studio.ts)\<close>

datatype ColumnType = TEXT | INTEGER | REAL | BLOB

text \<open>The numeric values of the TypeScript enum.\<close>

fun ColumnType_value :: "ColumnType \<Rightarrow> nat" where
  "ColumnType_value TEXT = 1"
| "ColumnType_value INTEGER = 2"
| "ColumnType_value REAL = 3"
| "ColumnType_value BLOB = 4"

text \<open>\<^verbatim>\<open>s.includes(sub)\<close>: \<open>sub\<close> occurs in \<open>s\<close> at some position.\<close>

fun str_includes :: "string \<Rightarrow> string \<Rightarrow> bool" where
  "str_includes [] sub = (sub = [])"
| "str_includes (c # cs) sub = (prefix sub (c # cs) \<or> str_includes cs sub)"

text \<open>
  \<^verbatim>\<open>convertSqliteType\<close>. The first argument stands for
  \<^verbatim>\<open>String.prototype.toUpperCase\<close>; \<open>None\<close> is \<^verbatim>\<open>undefined\<close>.
\<close>

definition convertSqliteType :: "(string \<Rightarrow> string) \<Rightarrow> string option \<Rightarrow> ColumnType" where
  "convertSqliteType toUpperCase ty =
     (case ty of
        None \<Rightarrow> BLOB
      | Some t \<Rightarrow>
          (let u = toUpperCase t in
           if str_includes u ''CHAR'' then TEXT
           else if str_includes u ''TEXT'' then TEXT
           else if str_includes u ''CLOB'' then TEXT
           else if str_includes u ''STRING'' then TEXT
           else if str_includes u ''INT'' then INTEGER
           else if str_includes u ''BLOB'' then BLOB
           else if str_includes u ''REAL'' \<or> str_includes u ''DOUBLE'' \<or> str_includes u ''FLOAT''
             then REAL
           else TEXT))"

text \<open>Upper-casing of ASCII letters, for evaluating the mapper on ASCII declared types.\<close>

definition toUpperCase_ascii :: "string \<Rightarrow> string" where
  "toUpperCase_ascii s =
     map (\<lambda>c. case map_of (zip ''abcdefghijklmnopqrstuvwxyz'' ''ABCDEFGHIJKLMNOPQRSTUVWXYZ'') c of
                 Some u \<Rightarrow> u | None \<Rightarrow> c) s"

section \<open>Result serializer of the HTTP variant (studio.ts)\<close>

record ResultHeader =
  name :: string
  displayName :: string
  originalType :: "string option"
  type :: ColumnType

record 'n Stat =
  stat_rowsAffected :: 'n
  rowsRead :: "'n option"
  rowsWritten :: "'n option"
  queryDurationMs :: "'n option"

text \<open>
  A row of the HTTP result is an object built by assignments \<^verbatim>\<open>a[b.name] = r[idx]\<close>:
  an association list in which a later assignment to the same key replaces the value.
  \<open>Result_lastInsertRowid = None\<close> is the property holding \<^verbatim>\<open>undefined\<close>, which
  the JSON serialisation of the response leaves out.
\<close>

record 'n Result =
  Result_rows :: "(string \<times> 'n Value) list list"
  stat :: "'n Stat"
  headers :: "ResultHeader list"
  Result_lastInsertRowid :: "'n option"

text \<open>\<^verbatim>\<open>`__${colName}_${i}`\<close>\<close>

definition suffixed :: "string \<Rightarrow> nat \<Rightarrow> string" where
  "suffixed colName i = ''__'' @ colName @ ''_'' @ string_of_nat i"

text \<open>
  The renaming loop
  \<^verbatim>\<open>for (let i = 0; i < 20; i++) { if (!headerSet.has(renameColName)) break; renameColName = `__${colName}_${i}`; }\<close>
  entered at counter \<open>i\<close> with the current candidate.
\<close>

function rename_loop :: "string set \<Rightarrow> string \<Rightarrow> nat \<Rightarrow> string \<Rightarrow> string" where
  "rename_loop headerSet colName i renameColName =
     (if i < 20 then
        (if renameColName \<in> headerSet
         then rename_loop headerSet colName (i + 1) (suffixed colName i)
         else renameColName)
      else renameColName)"
  by pat_completeness auto
termination
  by (relation "measure (\<lambda>(headerSet, colName, i, renameColName). 20 - i)") auto

declare rename_loop.simps [simp del]

text \<open>
  The condition under which the loop runs out of candidates, used to state when the names
  stay unique: the column finds its own name and all 20 suffixed forms among the names
  assigned so far.
\<close>

definition all_candidates_taken :: "string set \<Rightarrow> string \<Rightarrow> bool" where
  "all_candidates_taken assigned colName =
     (colName \<in> assigned \<and> list_all (\<lambda>i. suffixed colName i \<in> assigned) [0 ..< 20])"

text \<open>\<^verbatim>\<open>xs[i]\<close>, \<^verbatim>\<open>undefined\<close> out of range.\<close>

definition nth_opt :: "'a list \<Rightarrow> nat \<Rightarrow> 'a option" where
  "nth_opt xs i = (if i < length xs then Some (xs ! i) else None)"

text \<open>
  The callback of \<^verbatim>\<open>raw.columns.map((colName, colIdx) => ...)\<close> run over the
  remaining columns; the set it mutates and the index are threaded through.
\<close>

fun build_headers ::
  "(string \<Rightarrow> string) \<Rightarrow> string list \<Rightarrow> string set \<Rightarrow> nat \<Rightarrow> string list \<Rightarrow> ResultHeader list"
where
  "build_headers toUpperCase colTypes headerSet colIdx [] = []"
| "build_headers toUpperCase colTypes headerSet colIdx (colName # rest) =
     (let colType = nth_opt colTypes colIdx;
          renameColName = rename_loop headerSet colName 0 colName
      in \<lparr>name = renameColName, displayName = colName, originalType = colType,
           type = convertSqliteType toUpperCase colType\<rparr>
         # build_headers toUpperCase colTypes (insert renameColName headerSet) (colIdx + 1) rest)"

text \<open>\<^verbatim>\<open>headers.reduce((a, b, idx) => { a[b.name] = r[idx]; return a; }, {})\<close>\<close>

definition row_object :: "ResultHeader list \<Rightarrow> 'n Row \<Rightarrow> (string \<times> 'n Value) list" where
  "row_object hs r =
     foldl (\<lambda>a (b, idx). AList.update (name b) (r (string_of_nat idx)) a) []
       (zip hs [0 ..< length hs])"

text \<open>
  \<^verbatim>\<open>transformRawResult\<close>; \<open>Number\<close> stands for the conversion
  \<^verbatim>\<open>Number(raw.lastInsertRowid)\<close> of a bigint to a number.
\<close>

definition transformRawResult ::
  "(string \<Rightarrow> string) \<Rightarrow> (int \<Rightarrow> 'n) \<Rightarrow> 'n::zero ResultSet \<Rightarrow> 'n Result"
where
  "transformRawResult toUpperCase Number raw =
     (let hs = build_headers toUpperCase (columnTypes raw) {} 0 (columns raw) in
      \<lparr>Result_rows = map (row_object hs) (rows raw),
       stat = \<lparr>stat_rowsAffected = rowsAffected raw, rowsRead = None, rowsWritten = None,
               queryDurationMs = Some 0\<rparr>,
       headers = hs,
       Result_lastInsertRowid =
         (case lastInsertRowid raw of None \<Rightarrow> None | Some v \<Rightarrow> Some (Number v))\<rparr>)"

section \<open>The engine\<close>

text \<open>
  The database client is an opaque service. A call either throws or returns; what it
  throws is an object with a \<^verbatim>\<open>message\<close> and, possibly, a \<^verbatim>\<open>data\<close>
  property (\<open>None\<close> is \<^verbatim>\<open>undefined\<close>, as for every \<^verbatim>\<open>Error\<close> of the engine).
  The promise of \<^verbatim>\<open>execute\<close> settles \<open>latency\<close> ticks after the call. The
  database is threaded through the calls in the order they are made.
\<close>

record 'n ErrData =
  data_type :: "'n Value"
  data_id :: "'n Value"

record 'n Thrown =
  message :: string
  data :: "'n ErrData option"

record 'n Reply =
  latency :: nat
  outcome :: "'n Thrown + 'n ResultSet"

record ('db, 'n) Client =
  execute :: "'db \<Rightarrow> string \<Rightarrow> 'n Value list \<Rightarrow> 'n Reply \<times> 'db"
  batch :: "'db \<Rightarrow> string list \<Rightarrow> ('n Thrown + 'n ResultSet list) \<times> 'db"

section \<open>HTTP endpoint (studio.ts)\<close>

datatype 'n Body =
    query 'n string
  | transaction 'n "string list"

datatype 'n Payload =
    data_result "'n Result"
  | data_results "'n Result list"
  | error_text string

text \<open>The object given to \<^verbatim>\<open>res.json\<close>.\<close>

record 'n Response =
  resp_type :: "'n Value"
  resp_id :: "'n Value"
  payload :: "'n Payload"

text \<open>An exception that leaves the route handler: no response is written.\<close>

datatype Uncaught = TypeError

text \<open>
  The \<^verbatim>\<open>catch (e)\<close> branch: \<^verbatim>\<open>res.json({type: e.data.type, id: e.data.id, error: e.message})\<close>.
  Reading a property of \<^verbatim>\<open>undefined\<close> throws a TypeError.
\<close>

definition catch_branch :: "'n Thrown \<Rightarrow> Uncaught + 'n Response" where
  "catch_branch e =
     (case data e of
        None \<Rightarrow> Inl TypeError
      | Some d \<Rightarrow> Inr \<lparr>resp_type = data_type d, resp_id = data_id d,
                       payload = error_text (message e)\<rparr>)"

text \<open>The handler of \<^verbatim>\<open>POST /query\<close>.\<close>

definition post_query ::
  "(string \<Rightarrow> string) \<Rightarrow> (int \<Rightarrow> 'n) \<Rightarrow> ('db, 'n) Client \<Rightarrow> 'db \<Rightarrow> 'n::zero Body
     \<Rightarrow> (Uncaught + 'n Response) \<times> 'db"
where
  "post_query toUpperCase Number client d body =
     (case body of
        query ident statement \<Rightarrow>
          (let (reply, d') = execute client d statement [] in
           case outcome reply of
             Inr r \<Rightarrow>
               (Inr \<lparr>resp_type = Str ''query'', resp_id = Num ident,
                     payload = data_result (transformRawResult toUpperCase Number r)\<rparr>, d')
           | Inl e \<Rightarrow> (catch_branch e, d'))
      | transaction ident statements \<Rightarrow>
          (let (res, d') = batch client d statements in
           case res of
             Inr rs \<Rightarrow>
               (Inr \<lparr>resp_type = Str ''transaction'', resp_id = Num ident,
                     payload = data_results (map (transformRawResult toUpperCase Number) rs)\<rparr>, d')
           | Inl e \<Rightarrow> (catch_branch e, d')))"

section \<open>Socket protocol (connection.ts)\<close>

record 'n Arg =
  arg_type :: string
  arg_value :: "'n Value"

record 'n Stmt =
  sql :: string
  args :: "'n Arg list"
  named_args :: "'n Value list"
  want_rows :: bool

record 'n RequestExecuteMessage =
  stream_id :: 'n
  stmt :: "'n Stmt"

text \<open>
  The declared unions, each with one more case for a parsed message whose
  \<^verbatim>\<open>type\<close> matches no branch of the router.
\<close>

datatype 'n RequestMessageBody =
    Execute "'n RequestExecuteMessage"
  | OpenStream 'n
  | CloseStream 'n
  | UnknownRequest

datatype 'n Message =
    Hello string
  | Request 'n "'n RequestMessageBody"
  | UnknownMessage

text \<open>The objects given to \<^verbatim>\<open>JSON.stringify\<close> and sent on the socket.\<close>

record Col =
  col_name :: string
  decltype :: "string option"

record 'n Cell =
  cell_type :: string
  cell_value :: "'n Value"

record 'n ExecuteResult =
  cols :: "Col list"
  result_rows :: "'n Cell list list"
  last_insert_rowid :: "string option"
  affected_row_count :: 'n

datatype 'n ResponseBody =
    open_stream_ok
  | execute_ok "'n ExecuteResult"

datatype 'n ServerMessage =
    hello_ok
  | hello_error string string
  | response_ok 'n "'n ResponseBody"
  | response_error 'n string

fun getValueType :: "'n Value \<Rightarrow> string" where
  "getValueType (Str s) = ''text''"
| "getValueType (Num n) = ''float''"
| "getValueType Null = ''null''"
| "getValueType v = ''text''"

definition prepareResult :: "'n \<Rightarrow> 'n ResultSet \<Rightarrow> 'n ServerMessage" where
  "prepareResult requestId r =
     response_ok requestId (execute_ok
       \<lparr>cols = map (\<lambda>(col, colIdx). \<lparr>col_name = col, decltype = nth_opt (columnTypes r) colIdx\<rparr>)
                 (zip (columns r) [0 ..< length (columns r)]),
        result_rows = map (\<lambda>row. map (\<lambda>col. \<lparr>cell_type = getValueType (row col),
                                                  cell_value = row col\<rparr>) (columns r)) (rows r),
        last_insert_rowid =
          (case lastInsertRowid r of None \<Rightarrow> None | Some v \<Rightarrow> Some (bigint_toString v)),
        affected_row_count = rowsAffected r\<rparr>)"

subsection \<open>Promises in discrete time\<close>

text \<open>
  Time is counted in ticks. A promise is known by the tick at which it settles and by how
  it settles; a microtask takes no time. An asynchronous handler is a function of the tick
  at which it is called and of the connection: it returns the connection after its effects
  and the promise of its completion.
\<close>

datatype Settlement = fulfilled | rejected string

record Promise =
  settled_at :: nat
  settlement :: Settlement

text \<open>
  The fields of the class; \<open>socket\<close> is the list of the frames handed to
  \<^verbatim>\<open>socket.send\<close>, each with its tick. \<open>exited\<close> is the tick at which the
  process ended, \<open>None\<close> while it runs: the source installs no handler for a rejected
  promise, and the runtime ends the process on a rejection that nothing handles.
\<close>

record ('db, 'n) MessageHandler =
  current :: Promise
  socket :: "(nat \<times> 'n ServerMessage) list"
  db :: 'db
  token :: string
  exited :: "nat option"

type_synonym ('db, 'n) Handler =
  "nat \<Rightarrow> ('db, 'n) MessageHandler \<Rightarrow> ('db, 'n) MessageHandler \<times> Promise"

text \<open>\<^verbatim>\<open>this.socket.send(m)\<close> at tick \<open>t\<close>.\<close>

definition send :: "nat \<Rightarrow> 'n ServerMessage \<Rightarrow> ('db, 'n) MessageHandler \<Rightarrow> ('db, 'n) MessageHandler" where
  "send t m h = h\<lparr>socket := socket h @ [(t, m)]\<rparr>"

text \<open>
  \<^verbatim>\<open>p.then(handler)\<close> called at tick \<open>now\<close>: the handler is called once \<open>p\<close> is
  fulfilled, and is never called when \<open>p\<close> is rejected; the result is the promise that
  \<^verbatim>\<open>then\<close> returns.
\<close>

definition promise_then ::
  "Promise \<Rightarrow> nat \<Rightarrow> ('db, 'n) Handler \<Rightarrow> ('db, 'n) MessageHandler
     \<Rightarrow> ('db, 'n) MessageHandler \<times> Promise"
where
  "promise_then p now handler h =
     (case settlement p of
        fulfilled \<Rightarrow> handler (max now (settled_at p)) h
      | rejected e \<Rightarrow> (h, \<lparr>settled_at = max now (settled_at p), settlement = rejected e\<rparr>))"

text \<open>The constructor: \<^verbatim>\<open>this.current = Promise.resolve()\<close>.\<close>

definition new_MessageHandler :: "'db \<Rightarrow> string \<Rightarrow> ('db, 'n) MessageHandler" where
  "new_MessageHandler d tok =
     \<lparr>current = \<lparr>settled_at = 0, settlement = fulfilled\<rparr>, socket = [], db = d, token = tok,
      exited = None\<rparr>"

text \<open>
  A promise that nothing handles: when it is rejected, the process ends at the tick of the
  rejection (at the earliest such tick, if there are several).
\<close>

definition unhandled_rejection ::
  "Promise \<Rightarrow> ('db, 'n) MessageHandler \<Rightarrow> ('db, 'n) MessageHandler"
where
  "unhandled_rejection p h =
     (case settlement p of
        fulfilled \<Rightarrow> h
      | rejected e \<Rightarrow>
          (case exited h of
             None \<Rightarrow> h\<lparr>exited := Some (settled_at p)\<rparr>
           | Some T \<Rightarrow> h\<lparr>exited := Some (min T (settled_at p))\<rparr>))"

text \<open>The process has ended by tick \<open>now\<close>.\<close>

definition has_exited :: "('db, 'n) MessageHandler \<Rightarrow> nat \<Rightarrow> bool" where
  "has_exited h now = (case exited h of None \<Rightarrow> False | Some T \<Rightarrow> T \<le> now)"

text \<open>
  \<^verbatim>\<open>push(handler) { this.current.then(handler); }\<close>: the promise that
  \<^verbatim>\<open>then\<close> returns is dropped, so nothing handles its rejection, and
  \<^verbatim>\<open>this.current\<close> is not assigned.
\<close>

definition push :: "('db, 'n) Handler \<Rightarrow> nat \<Rightarrow> ('db, 'n) MessageHandler \<Rightarrow> ('db, 'n) MessageHandler" where
  "push handler now h =
     (let (h', p) = promise_then (current h) now handler h in unhandled_rejection p h')"

definition handleAuth :: "string \<Rightarrow> ('db, 'n) Handler" where
  "handleAuth jwt t h =
     (if jwt = token h
      then (send t hello_ok h, \<lparr>settled_at = t, settlement = fulfilled\<rparr>)
      else (send t (hello_error ''Authentication failed: The JWT is invalid'' ''AUTH_JWT_INVALID'') h,
            \<lparr>settled_at = t, settlement = rejected ''Authentication failed: The JWT is invalid''\<rparr>))"

definition handleOpenStream :: "'n \<Rightarrow> ('db, 'n) Handler" where
  "handleOpenStream requestId t h =
     (send t (response_ok requestId open_stream_ok) h, \<lparr>settled_at = t, settlement = fulfilled\<rparr>)"

definition handleCloseStream :: "('db, 'n) Handler" where
  "handleCloseStream t h = (h, \<lparr>settled_at = t, settlement = fulfilled\<rparr>)"

text \<open>
  \<^verbatim>\<open>handleExecuteRequest\<close>: the engine is called at once, the handler waits for its
  promise and then sends; a throw is caught and answered.
\<close>

definition handleExecuteRequest ::
  "('db, 'n) Client \<Rightarrow> 'n \<Rightarrow> 'n RequestExecuteMessage \<Rightarrow> ('db, 'n) Handler"
where
  "handleExecuteRequest client requestId body t h =
     (let (reply, d') = execute client (db h) (sql (stmt body)) (map arg_value (args (stmt body)));
          done = t + latency reply
      in case outcome reply of
           Inr r \<Rightarrow>
             (send done (prepareResult requestId r) (h\<lparr>db := d'\<rparr>),
              \<lparr>settled_at = done, settlement = fulfilled\<rparr>)
         | Inl e \<Rightarrow>
             (send done (response_error requestId (message e)) (h\<lparr>db := d'\<rparr>),
              \<lparr>settled_at = done, settlement = fulfilled\<rparr>))"

definition handleMessage :: "('db, 'n) Client \<Rightarrow> 'n Message \<Rightarrow> ('db, 'n) Handler" where
  "handleMessage client msg t h =
     (case msg of
        Hello jwt \<Rightarrow> handleAuth jwt t h
      | Request requestId body \<Rightarrow>
          (case body of
             OpenStream sid \<Rightarrow> handleOpenStream requestId t h
           | CloseStream sid \<Rightarrow> handleCloseStream t h
           | Execute b \<Rightarrow> handleExecuteRequest client requestId b t h
           | UnknownRequest \<Rightarrow> (h, \<lparr>settled_at = t, settlement = fulfilled\<rparr>))
      | UnknownMessage \<Rightarrow> (h, \<lparr>settled_at = t, settlement = fulfilled\<rparr>))"

text \<open>
  The listener \<^verbatim>\<open>socket.on("message", ...)\<close> for a message arriving at tick
  \<open>fst m\<close>; it runs only while the process does.
\<close>

definition on_message ::
  "('db, 'n) Client \<Rightarrow> nat \<times> 'n Message \<Rightarrow> ('db, 'n) MessageHandler \<Rightarrow> ('db, 'n) MessageHandler"
where
  "on_message client m h =
     (if has_exited h (fst m) then h else push (handleMessage client (snd m)) (fst m) h)"

text \<open>The messages of one connection, in the order of their arrival.\<close>

definition receive_all ::
  "('db, 'n) Client \<Rightarrow> (nat \<times> 'n Message) list \<Rightarrow> ('db, 'n) MessageHandler \<Rightarrow> ('db, 'n) MessageHandler"
where
  "receive_all client ms h = foldl (\<lambda>h' m. on_message client m h') h ms"

text \<open>
  What the peer observes: the frames in the order of their ticks, frames of the same tick in
  the order of submission, and no frame later than the end of the process.
\<close>

definition emitted :: "('db, 'n) MessageHandler \<Rightarrow> 'n ServerMessage list" where
  "emitted h =
     map snd (sort_key fst
       (filter (\<lambda>f. case exited h of None \<Rightarrow> True | Some T \<Rightarrow> fst f \<le> T) (socket h)))"

text \<open>
  The dispatcher of the specification, for comparison: each submission chains onto the
  tail and becomes the new tail.
\<close>

definition push_chained ::
  "('db, 'n) Handler \<Rightarrow> nat \<Rightarrow> ('db, 'n) MessageHandler \<Rightarrow> ('db, 'n) MessageHandler"
where
  "push_chained handler now h =
     (let (h', p) = promise_then (current h) now handler h
      in unhandled_rejection p (h'\<lparr>current := p\<rparr>))"

definition receive_all_chained ::
  "('db, 'n) Client \<Rightarrow> (nat \<times> 'n Message) list \<Rightarrow> ('db, 'n) MessageHandler \<Rightarrow> ('db, 'n) MessageHandler"
where
  "receive_all_chained client ms h =
     foldl (\<lambda>h' m. if has_exited h' (fst m) then h'
                    else push_chained (handleMessage client (snd m)) (fst m) h') h ms"

section \<open>Example engines and inputs\<close>

definition no_rows :: "int ResultSet" where
  "no_rows = \<lparr>columns = [], columnTypes = [], rows = [], rowsAffected = 0, lastInsertRowid = None\<rparr>"

text \<open>An engine that takes 5 ticks for the statement \<^verbatim>\<open>SELECT slow\<close> and 1 tick for any other.\<close>

definition slow_client :: "(unit, int) Client" where
  "slow_client =
     \<lparr>execute = (\<lambda>d s a. (\<lparr>latency = (if s = ''SELECT slow'' then 5 else 1), outcome = Inr no_rows\<rparr>, d)),
      batch = (\<lambda>d ss. (Inr (map (\<lambda>s. no_rows) ss), d))\<rparr>"

text \<open>An engine that throws an ordinary error on every statement.\<close>

definition syntax_error :: "int Thrown" where
  "syntax_error = \<lparr>message = ''SQLITE_ERROR: near INVALID: syntax error'', data = None\<rparr>"

definition failing_client :: "(unit, int) Client" where
  "failing_client =
     \<lparr>execute = (\<lambda>d s a. (\<lparr>latency = 1, outcome = Inl syntax_error\<rparr>, d)),
      batch = (\<lambda>d ss. (Inl syntax_error, d))\<rparr>"

definition select_stmt :: "string \<Rightarrow> int RequestExecuteMessage" where
  "select_stmt s = \<lparr>stream_id = 0, stmt = \<lparr>sql = s, args = [], named_args = [], want_rows = True\<rparr>\<rparr>"

text \<open>
  The result of \<^verbatim>\<open>SELECT 1 AS a, 2 AS a\<close>: one row with the indexed properties
  0 and 1 and the single named property a, whose value is \<open>v\<close>.
\<close>

definition two_a_columns :: "int \<Rightarrow> int ResultSet" where
  "two_a_columns v =
     \<lparr>columns = [''a'', ''a''], columnTypes = [[], []],
      rows = [(\<lambda>k. Undefined)(''0'' := Num 1, ''1'' := Num 2, ''a'' := Num v)],
      rowsAffected = 0, lastInsertRowid = None\<rparr>"

text \<open>21 columns a followed by a column b; and \<open>n\<close> columns named 0, 1, 2, ...\<close>

definition a21_then_b :: "int ResultSet" where
  "a21_then_b =
     \<lparr>columns = replicate 21 ''a'' @ [''b''], columnTypes = replicate 22 [], rows = [],
      rowsAffected = 0, lastInsertRowid = None\<rparr>"

definition numbered_columns :: "nat \<Rightarrow> int ResultSet" where
  "numbered_columns n =
     \<lparr>columns = map string_of_nat [0 ..< n], columnTypes = replicate n [], rows = [],
      rowsAffected = 0, lastInsertRowid = None\<rparr>"

definition same_name_columns :: "nat \<Rightarrow> int ResultSet" where
  "same_name_columns n =
     \<lparr>columns = replicate n ''a'', columnTypes = replicate n [], rows = [],
      rowsAffected = 0, lastInsertRowid = None\<rparr>"

text \<open>Two execute requests that differ only in the argument tag, the named arguments and the flag.\<close>

definition tagged_request :: "int RequestExecuteMessage" where
  "tagged_request =
     \<lparr>stream_id = 0,
      stmt = \<lparr>sql = ''SELECT ?'', args = [\<lparr>arg_type = ''integer'', arg_value = Num 5\<rparr>],
              named_args = [], want_rows = True\<rparr>\<rparr>"

definition retagged_request :: "int RequestExecuteMessage" where
  "retagged_request =
     \<lparr>stream_id = 0,
      stmt = \<lparr>sql = ''SELECT ?'', args = [\<lparr>arg_type = ''text'', arg_value = Num 5\<rparr>],
              named_args = [Null], want_rows = False\<rparr>\<rparr>"

section \<open>Decimal strings and substring search\<close>

lemma str_includes_sublist: "str_includes s sub \<longleftrightarrow> sublist sub s"
  by (induction s) (simp_all add: sublist_Cons_right)

lemma digit_value_digit: "d < 10 \<Longrightarrow> digit_value (''0123456789'' ! d) = d"
proof -
  assume "d < 10"
  then have "d \<in> {0,1,2,3,4,5,6,7,8,9}" by auto
  then show ?thesis by (auto simp: digit_value_def)
qed

lemma nat_of_decimal_snoc: "nat_of_decimal (s @ [c]) = 10 * nat_of_decimal s + digit_value c"
  by (simp add: nat_of_decimal_def)

lemma nat_of_decimal_string_of_nat: "nat_of_decimal (string_of_nat n) = n"
proof (induction n rule: string_of_nat.induct)
  case (1 n)
  show ?case
  proof (cases "n < 10")
    case True
    then show ?thesis
      by (simp add: string_of_nat.simps [of n] nat_of_decimal_def digit_value_digit)
  next
    case False
    with 1 have "nat_of_decimal (string_of_nat (n div 10)) = n div 10" by simp
    with False show ?thesis
      by (simp add: string_of_nat.simps [of n] nat_of_decimal_snoc digit_value_digit)
  qed
qed

lemma string_of_nat_inj: "string_of_nat i = string_of_nat j \<Longrightarrow> i = j"
  by (metis nat_of_decimal_string_of_nat)

lemma string_of_nat_no_minus: "CHR ''-'' \<notin> set (string_of_nat n)"
proof (induction n rule: string_of_nat.induct)
  case (1 n)
  have d: "\<And>d. d < 10 \<Longrightarrow> CHR ''-'' \<noteq> ''0123456789'' ! d"
  proof -
    fix d :: nat assume "d < 10"
    then have "d \<in> {0,1,2,3,4,5,6,7,8,9}" by auto
    then show "CHR ''-'' \<noteq> ''0123456789'' ! d" by auto
  qed
  show ?case
  proof (cases "n < 10")
    case True
    then show ?thesis by (simp add: string_of_nat.simps [of n] d)
  next
    case False
    with 1 show ?thesis by (simp add: string_of_nat.simps [of n] d)
  qed
qed

lemma string_of_nat_nonempty: "string_of_nat n \<noteq> []"
  by (subst string_of_nat.simps) simp

lemma int_of_decimal_bigint_toString: "int_of_decimal (bigint_toString v) = v"
proof (cases "v < 0")
  case True
  then show ?thesis
    by (simp add: bigint_toString_def int_of_decimal_def nat_of_decimal_string_of_nat)
next
  case False
  obtain c cs where s: "string_of_nat (nat v) = c # cs"
    using string_of_nat_nonempty [of "nat v"] by (cases "string_of_nat (nat v)") auto
  have "c \<noteq> CHR ''-''"
    using string_of_nat_no_minus [of "nat v"] s by auto
  with False s show ?thesis
    using nat_of_decimal_string_of_nat [of "nat v"]
    by (simp add: bigint_toString_def int_of_decimal_def)
qed

section \<open>The renaming loop and the header list\<close>

lemma suffixed_inj: "suffixed c i = suffixed c j \<Longrightarrow> i = j"
  by (simp add: suffixed_def string_of_nat_inj)

lemma suffixed_neq_orig: "suffixed c i \<noteq> c"
proof
  assume "suffixed c i = c"
  then have "length (suffixed c i) = length c" by simp
  then show False by (simp add: suffixed_def)
qed

lemma rename_loop_break:
  "i < 20 \<Longrightarrow> cur \<notin> S \<Longrightarrow> rename_loop S c i cur = cur"
  by (simp add: rename_loop.simps [of S c i cur])

lemma rename_loop_probe:
  "i < 20 \<Longrightarrow> cur \<in> S \<Longrightarrow>
   \<exists>j. i \<le> j \<and> j < 20 \<and> rename_loop S c i cur = suffixed c j
      \<and> (\<forall>k. i \<le> k \<and> k < j \<longrightarrow> suffixed c k \<in> S)
      \<and> (j < 19 \<longrightarrow> suffixed c j \<notin> S)"
proof (induction S c i cur rule: rename_loop.induct)
  case (1 S c i cur)
  have step: "rename_loop S c i cur = rename_loop S c (i + 1) (suffixed c i)"
    using "1.prems" by (simp add: rename_loop.simps [of S c i cur])
  show ?case
  proof (cases "i = 19")
    case True
    then have "rename_loop S c i cur = suffixed c 19"
      using step by (simp add: rename_loop.simps [of S c 20])
    with True show ?thesis by auto
  next
    case False
    with "1.prems" have lt: "i + 1 < 20" by simp
    show ?thesis
    proof (cases "suffixed c i \<in> S")
      case False
      then have "rename_loop S c i cur = suffixed c i"
        using step lt by (simp add: rename_loop_break)
      with False "1.prems" \<open>i \<noteq> 19\<close> show ?thesis
        by (intro exI [of _ i]) auto
    next
      case True
      from "1.IH" [OF "1.prems"(1) "1.prems"(2) lt True]
      obtain j where j: "i + 1 \<le> j" "j < 20"
        "rename_loop S c (i + 1) (suffixed c i) = suffixed c j"
        "\<forall>k. i + 1 \<le> k \<and> k < j \<longrightarrow> suffixed c k \<in> S"
        "j < 19 \<longrightarrow> suffixed c j \<notin> S"
        by blast
      have "\<forall>k. i \<le> k \<and> k < j \<longrightarrow> suffixed c k \<in> S"
      proof (intro allI impI)
        fix k assume "i \<le> k \<and> k < j"
        then have "k = i \<or> (i + 1 \<le> k \<and> k < j)" by arith
        then show "suffixed c k \<in> S" using True j(4) by auto
      qed
      with j step show ?thesis
        by (intro exI [of _ j]) auto
    qed
  qed
qed

lemma rename_loop_cases:
  "(c \<notin> S \<longrightarrow> rename_loop S c 0 c = c) \<and>
   (c \<in> S \<longrightarrow>
      (\<exists>i<20. rename_loop S c 0 c = suffixed c i \<and> (\<forall>j<i. suffixed c j \<in> S)
          \<and> (i < 19 \<longrightarrow> suffixed c i \<notin> S)))"
proof (intro conjI impI)
  assume "c \<notin> S"
  then show "rename_loop S c 0 c = c" by (simp add: rename_loop_break)
next
  assume "c \<in> S"
  from rename_loop_probe [of 0 c S c] this
  obtain j where "j < 20" "rename_loop S c 0 c = suffixed c j"
    "\<forall>k. k < j \<longrightarrow> suffixed c k \<in> S" "j < 19 \<longrightarrow> suffixed c j \<notin> S"
    by auto
  then show "\<exists>i<20. rename_loop S c 0 c = suffixed c i \<and> (\<forall>j<i. suffixed c j \<in> S)
          \<and> (i < 19 \<longrightarrow> suffixed c i \<notin> S)"
    by blast
qed

lemma rename_loop_fresh:
  assumes fin: "finite S" and small: "card S \<le> 20"
  shows "rename_loop S c 0 c \<notin> S"
proof (cases "c \<in> S")
  case False
  then show ?thesis by (simp add: rename_loop_break)
next
  case True
  from rename_loop_probe [of 0 c S c] True
  obtain j where j: "j < 20" "rename_loop S c 0 c = suffixed c j"
    "\<forall>k. k < j \<longrightarrow> suffixed c k \<in> S" "j < 19 \<longrightarrow> suffixed c j \<notin> S"
    by auto
  show ?thesis
  proof (cases "j < 19")
    case True
    with j show ?thesis by simp
  next
    case False
    with j(1) have j19: "j = 19" by simp
    show ?thesis
    proof
      assume "rename_loop S c 0 c \<in> S"
      with j j19 have top: "suffixed c 19 \<in> S" by simp
      have all: "suffixed c k \<in> S" if "k < 20" for k
      proof (cases "k = 19")
        case True
        with top show ?thesis by simp
      next
        case False
        with that have "k < j" using j19 by arith
        with j(3) show ?thesis by blast
      qed
      let ?T = "insert c (suffixed c ` {..<20})"
      have sub: "?T \<subseteq> S" using all \<open>c \<in> S\<close> by auto
      have "inj_on (suffixed c) {..<20}"
        by (auto simp: inj_on_def dest: suffixed_inj)
      then have "card (suffixed c ` {..<20}) = 20"
        by (simp add: card_image)
      moreover have "c \<notin> suffixed c ` {..<20}"
      proof
        assume "c \<in> suffixed c ` {..<20}"
        then obtain k where "c = suffixed c k" by auto
        then have "suffixed c k = c" by (rule sym)
        with suffixed_neq_orig [of c k] show False by (rule notE)
      qed
      ultimately have "card ?T = 21" by simp
      moreover have "card ?T \<le> card S" using sub fin by (rule card_mono [rotated])
      ultimately show False using small by simp
    qed
  qed
qed

lemma all_candidates_taken_iff:
  "all_candidates_taken S c \<longleftrightarrow> c \<in> S \<and> (\<forall>i<20. suffixed c i \<in> S)"
  by (auto simp: all_candidates_taken_def list_all_iff)

lemma rename_loop_taken: "rename_loop S c 0 c \<in> S \<longleftrightarrow> all_candidates_taken S c"
proof
  assume inS: "rename_loop S c 0 c \<in> S"
  have cS: "c \<in> S"
  proof (rule ccontr)
    assume "c \<notin> S"
    then have "rename_loop S c 0 c = c" by (simp add: rename_loop_break)
    with inS \<open>c \<notin> S\<close> show False by simp
  qed
  from rename_loop_probe [of 0 c S c] cS
  obtain j where j: "j < 20" "rename_loop S c 0 c = suffixed c j"
    "\<forall>k. k < j \<longrightarrow> suffixed c k \<in> S" "j < 19 \<longrightarrow> suffixed c j \<notin> S"
    by auto
  from j(2,4) inS have "\<not> j < 19" by auto
  with j(1) have j19: "j = 19" by simp
  have "suffixed c i \<in> S" if "i < 20" for i
  proof (cases "i = 19")
    case True
    with j(2) j19 inS show ?thesis by simp
  next
    case False
    with that j19 have "i < j" by arith
    with j(3) show ?thesis by blast
  qed
  with cS show "all_candidates_taken S c" by (simp add: all_candidates_taken_iff)
next
  assume "all_candidates_taken S c"
  then have cS: "c \<in> S" and all: "\<forall>i<20. suffixed c i \<in> S"
    by (simp_all add: all_candidates_taken_iff)
  from rename_loop_probe [of 0 c S c] cS
  obtain j where "j < 20" "rename_loop S c 0 c = suffixed c j" by auto
  with all show "rename_loop S c 0 c \<in> S" by simp
qed

lemma distinct_iff_fresh:
  "distinct xs \<longleftrightarrow> (\<forall>k<length xs. xs ! k \<notin> set (take k xs))"
proof (induction xs rule: rev_induct)
  case Nil
  then show ?case by simp
next
  case (snoc x xs)
  have "(\<forall>k<length (xs @ [x]). (xs @ [x]) ! k \<notin> set (take k (xs @ [x])))
      \<longleftrightarrow> (\<forall>k<length xs. xs ! k \<notin> set (take k xs)) \<and> x \<notin> set xs"
    by (auto simp: less_Suc_eq nth_append)
  with snoc show ?case by auto
qed

lemma build_headers_displayName:
  "map displayName (build_headers up tys S idx cs) = cs"
  by (induction cs arbitrary: S idx) (simp_all add: Let_def)

lemma build_headers_length:
  "length (build_headers up tys S idx cs) = length cs"
  by (induction cs arbitrary: S idx) (simp_all add: Let_def)

lemma build_headers_distinct:
  "finite S \<Longrightarrow> card S + length cs \<le> 21 \<Longrightarrow>
   distinct (map name (build_headers up tys S idx cs))
   \<and> set (map name (build_headers up tys S idx cs)) \<inter> S = {}"
proof (induction cs arbitrary: S idx)
  case Nil
  then show ?case by simp
next
  case (Cons c cs)
  let ?n = "rename_loop S c 0 c"
  from Cons.prems have small: "card S \<le> 20" by simp
  with Cons.prems(1) have fresh: "?n \<notin> S" by (rule rename_loop_fresh)
  have fin': "finite (insert ?n S)" using Cons.prems(1) by simp
  have card': "card (insert ?n S) + length cs \<le> 21"
    using Cons.prems fresh by simp
  from Cons.IH [OF fin' card', of "idx + 1"]
  have IH: "distinct (map name (build_headers up tys (insert ?n S) (idx + 1) cs))"
    "set (map name (build_headers up tys (insert ?n S) (idx + 1) cs)) \<inter> insert ?n S = {}"
    by simp_all
  from IH(2) have "?n \<notin> set (map name (build_headers up tys (insert ?n S) (idx + 1) cs))"
    and "set (map name (build_headers up tys (insert ?n S) (idx + 1) cs)) \<inter> S = {}"
    by auto
  with IH(1) fresh show ?case by (simp add: Let_def)
qed

lemma build_headers_nth:
  "k < length cs \<Longrightarrow>
   name (build_headers up tys S idx cs ! k) =
     rename_loop (S \<union> set (map name (take k (build_headers up tys S idx cs)))) (cs ! k) 0 (cs ! k)"
proof (induction cs arbitrary: S idx k)
  case Nil
  then show ?case by simp
next
  case (Cons c cs)
  show ?case
  proof (cases k)
    case 0
    then show ?thesis by (simp add: Let_def)
  next
    case (Suc k')
    with Cons.prems have "k' < length cs" by simp
    from Cons.IH [OF this, of "insert (rename_loop S c 0 c) S" "idx + 1"] Suc
    show ?thesis by (simp add: Let_def)
  qed
qed

lemma build_headers_names_kept:
  "distinct cs \<Longrightarrow> set cs \<inter> S = {} \<Longrightarrow> map name (build_headers up tys S idx cs) = cs"
proof (induction cs arbitrary: S idx)
  case Nil
  then show ?case by simp
next
  case (Cons c cs)
  from Cons.prems have fresh: "c \<notin> S" by auto
  then have same: "rename_loop S c 0 c = c" by (simp add: rename_loop_break)
  from Cons.prems have "distinct cs" and "set cs \<inter> insert c S = {}" by auto
  from Cons.IH [OF this, of "idx + 1"] same show ?case by (simp add: Let_def)
qed

lemma headers_transformRawResult:
  "headers (transformRawResult up Number raw) = build_headers up (columnTypes raw) {} 0 (columns raw)"
  by (simp add: transformRawResult_def Let_def)

section \<open>Properties of the type mapper and of the HTTP serializer\<close>

text \<open>
  Claim C6 (type normalisation). \<^verbatim>\<open>convertSqliteType\<close> returns BLOB for
  \<^verbatim>\<open>undefined\<close>. For a declared type whose upper-cased form is \<open>up t\<close>: TEXT when it
  contains CHAR, TEXT, CLOB or STRING; otherwise INTEGER when it contains INT; otherwise BLOB
  when it contains BLOB; otherwise REAL when it contains REAL, DOUBLE or FLOAT; otherwise
  TEXT. The TEXT family is tested before INT, so a type containing both INT and CHAR is
  TEXT. "Contains" is \<open>sublist\<close>: the word occurs as a contiguous part.
\<close>

theorem convertSqliteType_affinity:
  "convertSqliteType up None = BLOB \<and>
   (sublist ''CHAR'' (up t) \<or> sublist ''TEXT'' (up t) \<or> sublist ''CLOB'' (up t)
      \<or> sublist ''STRING'' (up t)
    \<longrightarrow> convertSqliteType up (Some t) = TEXT) \<and>
   (\<not> (sublist ''CHAR'' (up t) \<or> sublist ''TEXT'' (up t) \<or> sublist ''CLOB'' (up t)
        \<or> sublist ''STRING'' (up t)) \<longrightarrow>
      (sublist ''INT'' (up t) \<longrightarrow> convertSqliteType up (Some t) = INTEGER) \<and>
      (\<not> sublist ''INT'' (up t) \<and> sublist ''BLOB'' (up t)
         \<longrightarrow> convertSqliteType up (Some t) = BLOB) \<and>
      (\<not> sublist ''INT'' (up t) \<and> \<not> sublist ''BLOB'' (up t)
         \<and> (sublist ''REAL'' (up t) \<or> sublist ''DOUBLE'' (up t) \<or> sublist ''FLOAT'' (up t))
         \<longrightarrow> convertSqliteType up (Some t) = REAL) \<and>
      (\<not> sublist ''INT'' (up t) \<and> \<not> sublist ''BLOB'' (up t)
         \<and> \<not> sublist ''REAL'' (up t) \<and> \<not> sublist ''DOUBLE'' (up t) \<and> \<not> sublist ''FLOAT'' (up t)
         \<longrightarrow> convertSqliteType up (Some t) = TEXT)) \<and>
   (sublist ''INT'' (up t) \<and> sublist ''CHAR'' (up t) \<longrightarrow> convertSqliteType up (Some t) = TEXT)"
  by (simp add: convertSqliteType_def Let_def str_includes_sublist)

text \<open>
  The theorem at one declared type for each rule, upper-cased as ASCII.
\<close>

theorem convertSqliteType_affinity_witness:
  "sublist ''CHAR'' (toUpperCase_ascii ''varchar(10)'')
   \<and> convertSqliteType toUpperCase_ascii (Some ''varchar(10)'') = TEXT
   \<and> \<not> (sublist ''CHAR'' (toUpperCase_ascii ''Integer'') \<or> sublist ''TEXT'' (toUpperCase_ascii ''Integer'')
        \<or> sublist ''CLOB'' (toUpperCase_ascii ''Integer'') \<or> sublist ''STRING'' (toUpperCase_ascii ''Integer''))
   \<and> sublist ''INT'' (toUpperCase_ascii ''Integer'')
   \<and> convertSqliteType toUpperCase_ascii (Some ''Integer'') = INTEGER
   \<and> sublist ''BLOB'' (toUpperCase_ascii ''blob'')
   \<and> convertSqliteType toUpperCase_ascii (Some ''blob'') = BLOB
   \<and> sublist ''DOUBLE'' (toUpperCase_ascii ''Double'')
   \<and> convertSqliteType toUpperCase_ascii (Some ''Double'') = REAL
   \<and> convertSqliteType toUpperCase_ascii (Some ''numeric'') = TEXT
   \<and> sublist ''INT'' (toUpperCase_ascii ''char_int'') \<and> sublist ''CHAR'' (toUpperCase_ascii ''char_int'')
   \<and> convertSqliteType toUpperCase_ascii (Some ''char_int'') = TEXT"
proof -
  have u1: "toUpperCase_ascii ''varchar(10)'' = ''VARCHAR(10)''"
    and u2: "toUpperCase_ascii ''Integer'' = ''INTEGER''"
    and u3: "toUpperCase_ascii ''char_int'' = ''CHAR_INT''"
    and u4: "toUpperCase_ascii ''blob'' = ''BLOB''"
    and u5: "toUpperCase_ascii ''Double'' = ''DOUBLE''"
    and u6: "toUpperCase_ascii ''numeric'' = ''NUMERIC''"
    by (simp_all add: toUpperCase_ascii_def)
  have c1: "sublist ''CHAR'' (toUpperCase_ascii ''varchar(10)'')"
    unfolding u1 by (simp add: sublist_code)
  have n2: "\<not> (sublist ''CHAR'' (toUpperCase_ascii ''Integer'') \<or> sublist ''TEXT'' (toUpperCase_ascii ''Integer'')
        \<or> sublist ''CLOB'' (toUpperCase_ascii ''Integer'') \<or> sublist ''STRING'' (toUpperCase_ascii ''Integer''))"
    unfolding u2 by (simp add: sublist_code)
  have i2: "sublist ''INT'' (toUpperCase_ascii ''Integer'')"
    unfolding u2 by (simp add: sublist_code)
  have i3: "sublist ''INT'' (toUpperCase_ascii ''char_int'')"
    and c3: "sublist ''CHAR'' (toUpperCase_ascii ''char_int'')"
    unfolding u3 by (simp_all add: sublist_code)
  have n4: "\<not> (sublist ''CHAR'' (toUpperCase_ascii ''blob'') \<or> sublist ''TEXT'' (toUpperCase_ascii ''blob'')
        \<or> sublist ''CLOB'' (toUpperCase_ascii ''blob'') \<or> sublist ''STRING'' (toUpperCase_ascii ''blob''))"
    and i4: "\<not> sublist ''INT'' (toUpperCase_ascii ''blob'')"
    and b4: "sublist ''BLOB'' (toUpperCase_ascii ''blob'')"
    unfolding u4 by (simp_all add: sublist_code)
  have n5: "\<not> (sublist ''CHAR'' (toUpperCase_ascii ''Double'') \<or> sublist ''TEXT'' (toUpperCase_ascii ''Double'')
        \<or> sublist ''CLOB'' (toUpperCase_ascii ''Double'') \<or> sublist ''STRING'' (toUpperCase_ascii ''Double''))"
    and i5: "\<not> sublist ''INT'' (toUpperCase_ascii ''Double'')"
    and b5: "\<not> sublist ''BLOB'' (toUpperCase_ascii ''Double'')"
    and d5: "sublist ''DOUBLE'' (toUpperCase_ascii ''Double'')"
    unfolding u5 by (simp_all add: sublist_code)
  have n6: "\<not> (sublist ''CHAR'' (toUpperCase_ascii ''numeric'') \<or> sublist ''TEXT'' (toUpperCase_ascii ''numeric'')
        \<or> sublist ''CLOB'' (toUpperCase_ascii ''numeric'') \<or> sublist ''STRING'' (toUpperCase_ascii ''numeric''))"
    and i6: "\<not> sublist ''INT'' (toUpperCase_ascii ''numeric'')"
    and b6: "\<not> sublist ''BLOB'' (toUpperCase_ascii ''numeric'')"
    and r6: "\<not> sublist ''REAL'' (toUpperCase_ascii ''numeric'')"
    and d6: "\<not> sublist ''DOUBLE'' (toUpperCase_ascii ''numeric'')"
    and f6: "\<not> sublist ''FLOAT'' (toUpperCase_ascii ''numeric'')"
    unfolding u6 by (simp_all add: sublist_code)
  from c1 convertSqliteType_affinity [of toUpperCase_ascii "''varchar(10)''"]
  have r1: "convertSqliteType toUpperCase_ascii (Some ''varchar(10)'') = TEXT" by blast
  from n2 i2 convertSqliteType_affinity [of toUpperCase_ascii "''Integer''"]
  have r2: "convertSqliteType toUpperCase_ascii (Some ''Integer'') = INTEGER" by blast
  from i3 c3 convertSqliteType_affinity [of toUpperCase_ascii "''char_int''"]
  have r3: "convertSqliteType toUpperCase_ascii (Some ''char_int'') = TEXT" by blast
  from n4 i4 b4 convertSqliteType_affinity [of toUpperCase_ascii "''blob''"]
  have r4: "convertSqliteType toUpperCase_ascii (Some ''blob'') = BLOB" by blast
  from n5 i5 b5 d5 convertSqliteType_affinity [of toUpperCase_ascii "''Double''"]
  have r5: "convertSqliteType toUpperCase_ascii (Some ''Double'') = REAL" by blast
  from n6 i6 b6 r6 d6 f6 convertSqliteType_affinity [of toUpperCase_ascii "''numeric''"]
  have r6': "convertSqliteType toUpperCase_ascii (Some ''numeric'') = TEXT" by blast
  from c1 r1 n2 i2 r2 b4 r4 d5 r5 r6' i3 c3 r3 show ?thesis by blast
qed

text \<open>
  Claim C5 (column-name deduplication). Let \<open>assigned\<close> be the names given to the
  columns before column \<open>k\<close>. If the column's own name is not assigned, it is kept.
  Otherwise the name is \<open>__<original>_<i>\<close> for the least \<open>i\<close> from 0 whose
  suffixed name is not assigned, at most 20 suffixes being tried: the twentieth,
  \<open>i = 19\<close>, is kept without a test. The display name of every entry is the original
  column name. Three columns a give the keys a, \<open>__a_0\<close>, \<open>__a_1\<close>; with 21
  columns a the last one gets the twentieth suffix \<open>__a_19\<close>.
\<close>

theorem column_name_deduplication:
  assumes "k < length (columns raw)"
  shows
  "(columns raw ! k \<notin> set (map name (take k (headers (transformRawResult up Number raw))))
      \<longrightarrow> name (headers (transformRawResult up Number raw) ! k) = columns raw ! k) \<and>
   (columns raw ! k \<in> set (map name (take k (headers (transformRawResult up Number raw))))
      \<longrightarrow> (\<exists>i<20. name (headers (transformRawResult up Number raw) ! k) = suffixed (columns raw ! k) i
            \<and> (\<forall>j<i. suffixed (columns raw ! k) j
                   \<in> set (map name (take k (headers (transformRawResult up Number raw)))))
            \<and> (i < 19 \<longrightarrow> suffixed (columns raw ! k) i
                   \<notin> set (map name (take k (headers (transformRawResult up Number raw))))))) \<and>
   map displayName (headers (transformRawResult up Number raw)) = columns raw \<and>
   map name (headers (transformRawResult up' Number' (same_name_columns 3)))
     = [''a'', ''__a_0'', ''__a_1''] \<and>
   map name (headers (transformRawResult up' Number' (same_name_columns 21)))
     = ''a'' # map (suffixed ''a'') [0 ..< 20] \<and>
   name (last (headers (transformRawResult up' Number' (same_name_columns 21)))) = ''__a_19''"
proof -
  let ?hs = "headers (transformRawResult up Number raw)"
  let ?S = "set (map name (take k ?hs))"
  have nm: "name (?hs ! k) = rename_loop ?S (columns raw ! k) 0 (columns raw ! k)"
    using build_headers_nth [OF assms, of up "columnTypes raw" "{}" 0]
    by (simp add: headers_transformRawResult)
  have dn: "map displayName ?hs = columns raw"
    by (simp add: headers_transformRawResult build_headers_displayName)
  have e3: "map name (headers (transformRawResult up' Number' (same_name_columns 3)))
     = [''a'', ''__a_0'', ''__a_1'']"
    unfolding headers_transformRawResult by code_simp
  have e21: "map name (headers (transformRawResult up' Number' (same_name_columns 21)))
     = ''a'' # map (suffixed ''a'') [0 ..< 20]"
    unfolding headers_transformRawResult by code_simp
  have l21: "name (last (headers (transformRawResult up' Number' (same_name_columns 21)))) = ''__a_19''"
    unfolding headers_transformRawResult by code_simp
  from rename_loop_cases [of "columns raw ! k" ?S] nm dn e3 e21 l21
  show ?thesis by simp
qed

text \<open>
  The theorem at the second of three columns a: its name is assigned already, and it is
  renamed with a suffix.
\<close>

theorem column_name_deduplication_witness:
  "(1::nat) < length (columns (same_name_columns 3))
   \<and> columns (same_name_columns 3) ! 1
       \<in> set (map name (take 1 (headers (transformRawResult toUpperCase_ascii (\<lambda>v. v) (same_name_columns 3)))))
   \<and> (\<exists>i<20. name (headers (transformRawResult toUpperCase_ascii (\<lambda>v. v) (same_name_columns 3)) ! 1)
               = suffixed (columns (same_name_columns 3) ! 1) i)
   \<and> map displayName (headers (transformRawResult toUpperCase_ascii (\<lambda>v. v) (same_name_columns 3)))
       = [''a'', ''a'', ''a'']"
proof -
  have len: "(1::nat) < length (columns (same_name_columns 3))"
    by (simp add: same_name_columns_def)
  have mem: "columns (same_name_columns 3) ! 1
       \<in> set (map name (take 1 (headers (transformRawResult toUpperCase_ascii (\<lambda>v. v) (same_name_columns 3)))))"
    unfolding headers_transformRawResult by code_simp
  have cols: "columns (same_name_columns 3) = [''a'', ''a'', ''a'']"
    by code_simp
  from column_name_deduplication [OF len, of toUpperCase_ascii "\<lambda>v. v"] mem
  have "(\<exists>i<20. name (headers (transformRawResult toUpperCase_ascii (\<lambda>v. v) (same_name_columns 3)) ! 1)
               = suffixed (columns (same_name_columns 3) ! 1) i)"
    and "map displayName (headers (transformRawResult toUpperCase_ascii (\<lambda>v. v) (same_name_columns 3)))
       = columns (same_name_columns 3)"
    by blast+
  with len mem cols show ?thesis by simp
qed

text \<open>
  Claim C4 (uniqueness of the deduplicated names), as stated, fails: with 22 columns of
  the same name the last two both get \<open>__a_19\<close>, since the loop stops after 20
  suffixes.
\<close>

theorem deduplicated_names_not_always_distinct:
  "\<not> distinct (map name (headers (transformRawResult toUpperCase_ascii (\<lambda>v. v) (same_name_columns 22))))"
  unfolding headers_transformRawResult by code_simp

text \<open>
  Claim C4, amended: for every result set, of any width, the deduplicated names of the
  schema are pairwise distinct exactly when no column finds its own name and all 20
  suffixed forms \<open>__<name>_0\<close> to \<open>__<name>_19\<close> among the names assigned to
  the columns before it. In particular, column names that are distinct are kept as they
  are, and the names of at most 21 columns are always distinct.
\<close>

theorem deduplicated_names_distinct_iff:
  "(distinct (map name (headers (transformRawResult up Number raw))) \<longleftrightarrow>
      (\<forall>k<length (columns raw).
         \<not> all_candidates_taken
              (set (map name (take k (headers (transformRawResult up Number raw)))))
              (columns raw ! k))) \<and>
   (distinct (columns raw) \<longrightarrow>
      map name (headers (transformRawResult up Number raw)) = columns raw) \<and>
   (length (columns raw) \<le> 21 \<longrightarrow>
      distinct (map name (headers (transformRawResult up Number raw))))"
proof -
  let ?hs = "build_headers up (columnTypes raw) {} 0 (columns raw)"
  have len: "length (map name ?hs) = length (columns raw)"
    by (simp add: build_headers_length)
  have nth: "map name ?hs ! k \<notin> set (take k (map name ?hs))
      \<longleftrightarrow> \<not> all_candidates_taken (set (map name (take k ?hs))) (columns raw ! k)"
    if "k < length (columns raw)" for k
  proof -
    from that have "map name ?hs ! k = name (?hs ! k)"
      by (simp add: build_headers_length)
    also have "\<dots> = rename_loop (set (map name (take k ?hs))) (columns raw ! k) 0 (columns raw ! k)"
      using build_headers_nth [OF that, of up "columnTypes raw" "{}" 0] by simp
    finally show ?thesis
      by (simp add: take_map rename_loop_taken)
  qed
  have A: "distinct (map name ?hs) \<longleftrightarrow>
      (\<forall>k<length (columns raw).
         \<not> all_candidates_taken (set (map name (take k ?hs))) (columns raw ! k))"
    unfolding distinct_iff_fresh [of "map name ?hs"] len using nth by blast
  have B: "distinct (columns raw) \<longrightarrow> map name ?hs = columns raw"
    by (simp add: build_headers_names_kept)
  have C: "length (columns raw) \<le> 21 \<longrightarrow> distinct (map name ?hs)"
    using build_headers_distinct [of "{}" "columns raw" up "columnTypes raw" 0] by simp
  from A B C show ?thesis
    unfolding headers_transformRawResult by blast
qed

text \<open>
  The theorem at 21 columns a followed by a column b (22 columns, no column runs out of
  candidates), at 30 columns of distinct names, and at 21 columns of the same name.
\<close>

theorem deduplicated_names_distinct_iff_witness:
  "list_all (\<lambda>k. \<not> all_candidates_taken
                (set (map name (take k (headers (transformRawResult toUpperCase_ascii (\<lambda>v. v) a21_then_b)))))
                (columns a21_then_b ! k))
      [0 ..< length (columns a21_then_b)]
   \<and> length (columns a21_then_b) = 22
   \<and> distinct (map name (headers (transformRawResult toUpperCase_ascii (\<lambda>v. v) a21_then_b)))
   \<and> distinct (columns (numbered_columns 30))
   \<and> map name (headers (transformRawResult toUpperCase_ascii (\<lambda>v. v) (numbered_columns 30)))
       = columns (numbered_columns 30)
   \<and> length (columns (same_name_columns 21)) \<le> 21
   \<and> distinct (map name (headers (transformRawResult toUpperCase_ascii (\<lambda>v. v) (same_name_columns 21))))"
proof -
  have free: "list_all (\<lambda>k. \<not> all_candidates_taken
                (set (map name (take k (headers (transformRawResult toUpperCase_ascii (\<lambda>v. v) a21_then_b)))))
                (columns a21_then_b ! k))
      [0 ..< length (columns a21_then_b)]"
    unfolding headers_transformRawResult by code_simp
  have wide: "length (columns a21_then_b) = 22"
    by (simp add: a21_then_b_def)
  have dist: "distinct (columns (numbered_columns 30))"
    by code_simp
  have len: "length (columns (same_name_columns 21)) \<le> 21"
    by (simp add: same_name_columns_def)
  from free have hyp: "\<forall>k<length (columns a21_then_b).
         \<not> all_candidates_taken
              (set (map name (take k (headers (transformRawResult toUpperCase_ascii (\<lambda>v. v) a21_then_b)))))
              (columns a21_then_b ! k)"
    by (simp add: list_all_iff)
  from hyp deduplicated_names_distinct_iff [of toUpperCase_ascii "\<lambda>v. v" a21_then_b]
  have r1: "distinct (map name (headers (transformRawResult toUpperCase_ascii (\<lambda>v. v) a21_then_b)))"
    by blast
  from dist deduplicated_names_distinct_iff [of toUpperCase_ascii "\<lambda>v. v" "numbered_columns 30"]
  have r2: "map name (headers (transformRawResult toUpperCase_ascii (\<lambda>v. v) (numbered_columns 30)))
       = columns (numbered_columns 30)"
    by blast
  from len deduplicated_names_distinct_iff [of toUpperCase_ascii "\<lambda>v. v" "same_name_columns 21"]
  have r3: "distinct (map name (headers (transformRawResult toUpperCase_ascii (\<lambda>v. v) (same_name_columns 21))))"
    by blast
  from free wide r1 dist r2 len r3 show ?thesis by blast
qed

text \<open>
  Claim C8 (last inserted row id, by transport). In the socket variant the serialized
  \<^verbatim>\<open>last_insert_rowid\<close> is the decimal string of the engine's value when there is
  one (reading the string back gives the value) and \<^verbatim>\<open>null\<close>, here \<open>None\<close>,
  when there is none. In the HTTP variant \<^verbatim>\<open>lastInsertRowid\<close> is the value
  converted by \<^verbatim>\<open>Number\<close> when there is one, and \<^verbatim>\<open>undefined\<close>, here
  \<open>None\<close> and absent from the JSON text, when there is none.
\<close>

theorem last_insert_rowid_by_transport:
  "(\<exists>res. prepareResult requestId r = response_ok requestId (execute_ok res)
       \<and> last_insert_rowid res = map_option bigint_toString (lastInsertRowid r))
   \<and> int_of_decimal (bigint_toString v) = v
   \<and> Result_lastInsertRowid (transformRawResult up Number r') = map_option Number (lastInsertRowid r')"
proof -
  have "\<exists>res. prepareResult requestId r = response_ok requestId (execute_ok res)
       \<and> last_insert_rowid res = map_option bigint_toString (lastInsertRowid r)"
    by (cases "lastInsertRowid r") (simp_all add: prepareResult_def)
  moreover have "Result_lastInsertRowid (transformRawResult up Number r') = map_option Number (lastInsertRowid r')"
    by (cases "lastInsertRowid r'") (simp_all add: transformRawResult_def Let_def)
  ultimately show ?thesis by (simp add: int_of_decimal_bigint_toString)
qed

section \<open>Properties of the HTTP endpoint\<close>

text \<open>
  Claim C3 (failure envelope of the HTTP variant) does not hold of the code: the catch
  branch reads \<^verbatim>\<open>e.data.type\<close> and \<^verbatim>\<open>e.data.id\<close> of the thrown error, not
  the type and id of the request. When the engine throws an ordinary error, for a query as
  for a transaction, reading them throws a TypeError and no response is written.
\<close>

theorem http_failure_sends_no_envelope:
  "post_query toUpperCase_ascii (\<lambda>v. v) failing_client () (query 1 ''INVALID'') = (Inl TypeError, ())
   \<and> post_query toUpperCase_ascii (\<lambda>v. v) failing_client () (transaction 2 [''INVALID'']) = (Inl TypeError, ())"
  by (simp add: post_query_def failing_client_def syntax_error_def catch_branch_def)

section \<open>Properties of the socket protocol\<close>

lemmas handler_defs = on_message_def has_exited_def push_def unhandled_rejection_def
  promise_then_def handleMessage_def handleAuth_def handleOpenStream_def handleCloseStream_def
  handleExecuteRequest_def send_def new_MessageHandler_def

lemma current_unhandled_rejection: "current (unhandled_rejection p h) = current h"
  by (simp add: unhandled_rejection_def split: Settlement.splits option.splits)

lemma token_unhandled_rejection: "token (unhandled_rejection p h) = token h"
  by (simp add: unhandled_rejection_def split: Settlement.splits option.splits)

lemma unhandled_rejection_fulfilled:
  "settlement p = fulfilled \<Longrightarrow> unhandled_rejection p h = h"
  by (simp add: unhandled_rejection_def)

lemma handleMessage_keeps:
  "current (fst (handleMessage client msg t h)) = current h
   \<and> token (fst (handleMessage client msg t h)) = token h"
  by (simp add: handleMessage_def handleAuth_def handleOpenStream_def handleCloseStream_def
      handleExecuteRequest_def send_def Let_def
      split: Message.splits RequestMessageBody.splits sum.splits prod.splits)

lemma push_keeps:
  "current (push handler now h) = current (fst (promise_then (current h) now handler h))
   \<and> token (push handler now h) = token (fst (promise_then (current h) now handler h))"
  by (simp add: push_def current_unhandled_rejection token_unhandled_rejection split: prod.splits)

lemma on_message_keeps:
  "current (on_message client m h) = current h \<and> token (on_message client m h) = token h"
proof (cases "has_exited h (fst m)")
  case True
  then show ?thesis by (simp add: on_message_def)
next
  case False
  show ?thesis
  proof (cases "settlement (current h)")
    case fulfilled
    with False show ?thesis
      by (simp add: on_message_def push_keeps promise_then_def handleMessage_keeps)
  next
    case (rejected e)
    with False show ?thesis
      by (simp add: on_message_def push_keeps promise_then_def)
  qed
qed

lemma receive_all_keeps:
  "current (receive_all client ms h) = current h \<and> token (receive_all client ms h) = token h"
  unfolding receive_all_def
  by (induction ms arbitrary: h) (simp_all add: on_message_keeps)

lemma receive_all_snoc:
  "receive_all client (ms @ [m]) h = on_message client m (receive_all client ms h)"
  by (simp add: receive_all_def)

lemma fresh_fulfilled:
  "current (receive_all client ms (new_MessageHandler d tok)) = \<lparr>settled_at = 0, settlement = fulfilled\<rparr>"
  by (simp add: receive_all_keeps new_MessageHandler_def)


lemma on_message_runs_handler:
  "settlement (current h) = fulfilled \<Longrightarrow> \<not> has_exited h (fst m) \<Longrightarrow>
   on_message client m h =
     (case handleMessage client (snd m) (max (fst m) (settled_at (current h))) h of
        (h', p) \<Rightarrow> unhandled_rejection p h')"
  by (simp add: on_message_def push_def promise_then_def)

lemma on_message_after_history:
  "exited (receive_all client ms (new_MessageHandler d tok)) = None \<Longrightarrow>
   on_message client m (receive_all client ms (new_MessageHandler d tok)) =
     (case handleMessage client (snd m) (fst m) (receive_all client ms (new_MessageHandler d tok)) of
        (h', p) \<Rightarrow> unhandled_rejection p h')"
  by (simp add: on_message_runs_handler fresh_fulfilled has_exited_def)


lemma set_emitted: "exited h = None \<Longrightarrow> set (emitted h) = snd ` set (socket h)"
  by (simp add: emitted_def)

lemma handleExecuteRequest_result:
  "execute client (db h) (sql (stmt b)) (map arg_value (args (stmt b))) = (reply, d') \<Longrightarrow>
   handleExecuteRequest client requestId b t h =
     (send (t + latency reply)
        (case outcome reply of Inr r \<Rightarrow> prepareResult requestId r
                             | Inl e \<Rightarrow> response_error requestId (message e))
        (h\<lparr>db := d'\<rparr>),
      \<lparr>settled_at = t + latency reply, settlement = fulfilled\<rparr>)"
  by (simp add: handleExecuteRequest_def Let_def split: sum.splits)

text \<open>
  Claim C1 (per-connection FIFO dispatch) does not hold of the code:
  \<^verbatim>\<open>push\<close> never assigns \<^verbatim>\<open>this.current\<close>, so every handler is chained onto
  the promise of the constructor and starts when its message arrives. With a first request
  that takes 5 ticks and a second one, arriving at tick 1, that takes 1 tick, the second
  response is sent at tick 2 and the first at tick 5. The dispatcher of the specification
  answers the same input in the order of submission.
\<close>

theorem responses_out_of_submission_order:
  "socket (receive_all slow_client
      [(0, Request 1 (Execute (select_stmt ''SELECT slow''))),
       (1, Request 2 (Execute (select_stmt ''SELECT fast'')))]
      (new_MessageHandler () ''secret''))
   = [(5, prepareResult 1 no_rows), (2, prepareResult 2 no_rows)]
   \<and> emitted (receive_all slow_client
      [(0, Request 1 (Execute (select_stmt ''SELECT slow''))),
       (1, Request 2 (Execute (select_stmt ''SELECT fast'')))]
      (new_MessageHandler () ''secret''))
   = [prepareResult 2 no_rows, prepareResult 1 no_rows]
   \<and> emitted (receive_all_chained slow_client
      [(0, Request 1 (Execute (select_stmt ''SELECT slow''))),
       (1, Request 2 (Execute (select_stmt ''SELECT fast'')))]
      (new_MessageHandler () ''secret''))
   = [prepareResult 1 no_rows, prepareResult 2 no_rows]"
  by (simp add: emitted_def receive_all_def receive_all_chained_def push_chained_def handler_defs
      slow_client_def select_stmt_def Let_def)




text \<open>
  Claim C7 (recovery from an execute error). After any messages \<open>ms\<close> that left the
  process running, when the engine call of an execute request throws \<open>e\<close>, the handler
  sends \<^verbatim>\<open>response_error\<close> with the request id and the message of \<open>e\<close> and is
  fulfilled; the failure does not end the process and the connection goes on: the handler
  of the next message \<open>m'\<close> is run, and a following \<^verbatim>\<open>open_stream\<close> is
  acknowledged.
\<close>

theorem execute_failure_is_answered_and_survived:
  assumes live: "exited (receive_all client ms (new_MessageHandler d tok)) = None"
    and call: "execute client (db (receive_all client ms (new_MessageHandler d tok)))
                   (sql (stmt b)) (map arg_value (args (stmt b))) = (reply, d')"
    and throws: "outcome reply = Inl e"
  shows
  "handleExecuteRequest client requestId b t (receive_all client ms (new_MessageHandler d tok)) =
     (send (t + latency reply) (response_error requestId (message e))
        ((receive_all client ms (new_MessageHandler d tok))\<lparr>db := d'\<rparr>),
      \<lparr>settled_at = t + latency reply, settlement = fulfilled\<rparr>)
   \<and> receive_all client (ms @ [(t, Request requestId (Execute b))]) (new_MessageHandler d tok) =
       send (t + latency reply) (response_error requestId (message e))
        ((receive_all client ms (new_MessageHandler d tok))\<lparr>db := d'\<rparr>)
   \<and> exited (receive_all client (ms @ [(t, Request requestId (Execute b))]) (new_MessageHandler d tok))
       = None
   \<and> receive_all client (ms @ [(t, Request requestId (Execute b)), m']) (new_MessageHandler d tok) =
       (case handleMessage client (snd m') (fst m')
              (receive_all client (ms @ [(t, Request requestId (Execute b))]) (new_MessageHandler d tok))
        of (h', p) \<Rightarrow> unhandled_rejection p h')
   \<and> response_error requestId (message e)
       \<in> set (emitted (receive_all client
             (ms @ [(t, Request requestId (Execute b)), (t', Request requestId' (OpenStream sid))])
             (new_MessageHandler d tok)))
   \<and> response_ok requestId' open_stream_ok
       \<in> set (emitted (receive_all client
             (ms @ [(t, Request requestId (Execute b)), (t', Request requestId' (OpenStream sid))])
             (new_MessageHandler d tok)))"
proof -
  let ?h = "receive_all client ms (new_MessageHandler d tok)"
  let ?h1 = "receive_all client (ms @ [(t, Request requestId (Execute b))]) (new_MessageHandler d tok)"
  let ?h2 = "receive_all client
             (ms @ [(t, Request requestId (Execute b)), (t', Request requestId' (OpenStream sid))])
             (new_MessageHandler d tok)"
  have A: "handleExecuteRequest client requestId b t ?h =
     (send (t + latency reply) (response_error requestId (message e)) (?h\<lparr>db := d'\<rparr>),
      \<lparr>settled_at = t + latency reply, settlement = fulfilled\<rparr>)"
    using handleExecuteRequest_result [OF call] throws by simp
  have B: "?h1 = send (t + latency reply) (response_error requestId (message e)) (?h\<lparr>db := d'\<rparr>)"
    using A
    by (simp add: receive_all_snoc on_message_after_history [OF live] handleMessage_def
        unhandled_rejection_fulfilled)
  have L: "exited ?h1 = None"
    by (simp add: B send_def live)
  have C: "receive_all client (ms @ [(t, Request requestId (Execute b)), m]) (new_MessageHandler d tok)
      = (case handleMessage client (snd m) (fst m) ?h1 of (h', p) \<Rightarrow> unhandled_rejection p h')"
    for m
  proof -
    have "receive_all client ((ms @ [(t, Request requestId (Execute b))]) @ [m]) (new_MessageHandler d tok)
      = on_message client m ?h1"
      by (rule receive_all_snoc)
    then show ?thesis
      by (simp add: on_message_after_history [OF L])
  qed
  have h2: "?h2 = send t' (response_ok requestId' open_stream_ok) ?h1"
    by (simp add: C handleMessage_def handleOpenStream_def unhandled_rejection_fulfilled)
  have L2: "exited ?h2 = None"
    by (simp add: h2 send_def L)
  have S2: "socket ?h2 = socket ?h @ [(t + latency reply, response_error requestId (message e)),
      (t', response_ok requestId' open_stream_ok)]"
    by (simp add: h2 B send_def)
  have D: "response_error requestId (message e) \<in> set (emitted ?h2)"
    and E: "response_ok requestId' open_stream_ok \<in> set (emitted ?h2)"
    unfolding set_emitted [OF L2] S2 by (simp_all add: image_iff)
  from A B L C D E show ?thesis by blast
qed

text \<open>
  The theorem with an engine that throws on every statement.
\<close>

theorem execute_failure_is_answered_and_survived_witness:
  "exited (receive_all failing_client [] (new_MessageHandler () ''secret'')) = None
   \<and> execute failing_client (db (receive_all failing_client [] (new_MessageHandler () ''secret'')))
     (sql (stmt (select_stmt ''INVALID''))) (map arg_value (args (stmt (select_stmt ''INVALID''))))
     = (\<lparr>latency = 1, outcome = Inl syntax_error\<rparr>, ())
   \<and> outcome \<lparr>latency = 1, outcome = Inl syntax_error\<rparr> = Inl syntax_error
   \<and> receive_all failing_client ([] @ [(0, Request 1 (Execute (select_stmt ''INVALID'')))])
        (new_MessageHandler () ''secret'')
      = send (0 + latency \<lparr>latency = 1, outcome = Inl syntax_error\<rparr>)
          (response_error 1 (message syntax_error))
          ((receive_all failing_client [] (new_MessageHandler () ''secret''))\<lparr>db := ()\<rparr>)
   \<and> exited (receive_all failing_client ([] @ [(0, Request 1 (Execute (select_stmt ''INVALID'')))])
        (new_MessageHandler () ''secret'')) = None
   \<and> response_ok 2 open_stream_ok
       \<in> set (emitted (receive_all failing_client
             ([] @ [(0, Request 1 (Execute (select_stmt ''INVALID''))), (3, Request 2 (OpenStream 0))])
             (new_MessageHandler () ''secret'')))"
proof -
  have live: "exited (receive_all failing_client [] (new_MessageHandler () ''secret'')) = None"
    by (simp add: receive_all_def new_MessageHandler_def)
  have call: "execute failing_client (db (receive_all failing_client [] (new_MessageHandler () ''secret'')))
     (sql (stmt (select_stmt ''INVALID''))) (map arg_value (args (stmt (select_stmt ''INVALID''))))
     = (\<lparr>latency = 1, outcome = Inl syntax_error\<rparr>, ())"
    by (simp add: failing_client_def)
  have throws: "outcome \<lparr>latency = 1, outcome = Inl syntax_error\<rparr> = Inl syntax_error"
    by simp
  from execute_failure_is_answered_and_survived [OF live call throws, of 1 0 _ 3 2 0] live call throws
  show ?thesis by blast
qed

text \<open>
  Claim C10 (what the execute handler passes to the engine). Two execute requests with the
  same SQL text and the same argument values, whatever their argument tags, named
  arguments, \<^verbatim>\<open>want_rows\<close> flags and stream ids, make the handler and the whole
  dispatch step behave identically, for every engine: the engine is called with the SQL
  text and the values only, and the response is made from its reply.
\<close>

theorem execute_ignores_tags_named_args_want_rows:
  assumes "sql (stmt b) = sql (stmt b')"
    and "map arg_value (args (stmt b)) = map arg_value (args (stmt b'))"
  shows "handleExecuteRequest client requestId b t h = handleExecuteRequest client requestId b' t h
    \<and> on_message client (t, Request requestId (Execute b)) h
        = on_message client (t, Request requestId (Execute b')) h
    \<and> (\<exists>reply d'.
          execute client (db h) (sql (stmt b)) (map arg_value (args (stmt b))) = (reply, d')
          \<and> handleExecuteRequest client requestId b' t h =
              (send (t + latency reply)
                 (case outcome reply of Inr r \<Rightarrow> prepareResult requestId r
                                      | Inl e \<Rightarrow> response_error requestId (message e))
                 (h\<lparr>db := d'\<rparr>),
               \<lparr>settled_at = t + latency reply, settlement = fulfilled\<rparr>))"
proof -
  have same_at: "handleExecuteRequest client requestId b u h = handleExecuteRequest client requestId b' u h"
    for u
    using assms by (simp add: handleExecuteRequest_def)
  then have same: "handleExecuteRequest client requestId b t h = handleExecuteRequest client requestId b' t h" .
  have msg: "handleMessage client (Request requestId (Execute b)) u h
      = handleMessage client (Request requestId (Execute b')) u h" for u
    by (simp add: handleMessage_def same_at)
  have routed: "on_message client (t, Request requestId (Execute b)) h
        = on_message client (t, Request requestId (Execute b')) h"
    by (cases "settlement (current h)") (simp_all add: on_message_def push_def promise_then_def msg)
  obtain reply d' where call:
    "execute client (db h) (sql (stmt b)) (map arg_value (args (stmt b))) = (reply, d')"
    by (cases "execute client (db h) (sql (stmt b)) (map arg_value (args (stmt b)))")
  from handleExecuteRequest_result [OF call, of requestId t] same call
  have "execute client (db h) (sql (stmt b)) (map arg_value (args (stmt b))) = (reply, d')
          \<and> handleExecuteRequest client requestId b' t h =
              (send (t + latency reply)
                 (case outcome reply of Inr r \<Rightarrow> prepareResult requestId r
                                      | Inl e \<Rightarrow> response_error requestId (message e))
                 (h\<lparr>db := d'\<rparr>),
               \<lparr>settled_at = t + latency reply, settlement = fulfilled\<rparr>)"
    by simp
  with same routed show ?thesis by blast
qed

text \<open>
  The theorem at two requests that differ in the tag, the named arguments and the flag.
\<close>

theorem execute_ignores_tags_named_args_want_rows_witness:
  "sql (stmt tagged_request) = sql (stmt retagged_request)
   \<and> map arg_value (args (stmt tagged_request)) = map arg_value (args (stmt retagged_request))
   \<and> tagged_request \<noteq> retagged_request
   \<and> on_message slow_client (0, Request 1 (Execute tagged_request)) (new_MessageHandler () ''secret'')
      = on_message slow_client (0, Request 1 (Execute retagged_request)) (new_MessageHandler () ''secret'')"
proof -
  have s: "sql (stmt tagged_request) = sql (stmt retagged_request)"
    and a: "map arg_value (args (stmt tagged_request)) = map arg_value (args (stmt retagged_request))"
    and d: "tagged_request \<noteq> retagged_request"
    by (simp_all add: tagged_request_def retagged_request_def)
  from execute_ignores_tags_named_args_want_rows [OF s a, of slow_client 1 0 "new_MessageHandler () ''secret''"]
    s a d
  show ?thesis by blast
qed

text \<open>
  Claim C9 (row serialization of the socket variant) does not hold of the code for columns
  of the same name: a cell is read by the name of its column, \<^verbatim>\<open>row[col]\<close>, not by
  its position. For \<^verbatim>\<open>SELECT 1 AS a, 2 AS a\<close> both cells hold the one value \<open>v\<close>
  of the property a, whichever it is, while the values of the row by position are 1 and 2.
\<close>

theorem duplicate_column_cells_not_positional:
  "prepareResult 1 (two_a_columns v) =
     response_ok 1 (execute_ok
       \<lparr>cols = [\<lparr>col_name = ''a'', decltype = Some []\<rparr>, \<lparr>col_name = ''a'', decltype = Some []\<rparr>],
        result_rows = [[\<lparr>cell_type = ''float'', cell_value = Num v\<rparr>,
                        \<lparr>cell_type = ''float'', cell_value = Num v\<rparr>]],
        last_insert_rowid = None, affected_row_count = 0\<rparr>)
   \<and> map (\<lambda>row. map (\<lambda>j. row (string_of_nat j)) [0 ..< length (columns (two_a_columns v))])
        (rows (two_a_columns v)) = [[Num 1, Num 2]]
   \<and> [[Num v, Num v]] \<noteq> [[Num 1, Num (2::int)]]"
  by (simp add: prepareResult_def two_a_columns_def nth_opt_def string_of_nat.simps upt_rec)

end
